theory Spec2Isabelle
  imports Main "HOL-Library.AList" "HOL-Library.Char_ord" "HOL-Library.List_Lexorder"
begin

section \<open>Strings and the library functions the plugin calls\<close>

text \<open>
  The plugin is \<^verbatim>\<open>src/mkdocs_autolinks_plugin/plugin.py\<close>. A Python \<^verbatim>\<open>str\<close> is modelled
  as a \<^typ>\<open>string\<close>; a \<^typ>\<open>char\<close> stands for the code point of the same number, so the
  model covers texts and paths over the code points U+0000 to U+00FF. A Python \<^verbatim>\<open>dict\<close>
  (also \<^verbatim>\<open>defaultdict\<close> and \<^verbatim>\<open>Counter\<close>) is an association list in insertion order with
  distinct keys: \<^const>\<open>map_of\<close> reads it and \<^const>\<open>AList.update\<close> writes it (an existing key
  keeps its place, a new key goes to the end), as Python's dictionaries do.

  The functions of the Python standard library that the plugin calls are written out
  from their CPython definitions (\<^verbatim>\<open>posixpath\<close>, \<^verbatim>\<open>urllib.parse.quote\<close>, \<^verbatim>\<open>str.strip\<close>,
  \<^verbatim>\<open>str.replace\<close>, \<^verbatim>\<open>re.sub\<close>). The working directory that \<^verbatim>\<open>os.getcwd()\<close> returns is
  the parameter \<open>cwd\<close>. Log messages are not modelled.
\<close>

type_synonym path = string

datatype error = ValueError | AttributeError | TypeError

subsection \<open>\<^verbatim>\<open>str\<close> methods\<close>

text \<open>\<^verbatim>\<open>str.isspace\<close> on one character: the white space of Unicode below U+0100.\<close>

definition isspace :: "char \<Rightarrow> bool" where
  "isspace c =
     (let n = (of_char c :: nat)
      in (9 \<le> n \<and> n \<le> 13) \<or> (28 \<le> n \<and> n \<le> 32) \<or> n = 133 \<or> n = 160)"

text \<open>\<^verbatim>\<open>s.strip()\<close>.\<close>

definition strip :: "string \<Rightarrow> string" where
  "strip s = rev (dropWhile isspace (rev (dropWhile isspace s)))"

text \<open>\<^verbatim>\<open>s.startswith(t)\<close>.\<close>

definition startswith :: "string \<Rightarrow> string \<Rightarrow> bool" where
  "startswith s t = (take (length t) s = t)"

text \<open>
  \<^verbatim>\<open>s.replace(old, new)\<close>: every occurrence of \<open>old\<close>, found from left to right without
  overlap, is replaced. With an empty \<open>old\<close>, \<open>new\<close> is put before every character and at
  the end.
\<close>

function replace :: "string \<Rightarrow> string \<Rightarrow> string \<Rightarrow> string" where
  "replace s old new =
     (if old = [] then
        (case s of [] \<Rightarrow> new | c # cs \<Rightarrow> new @ c # replace cs old new)
      else if s = [] then []
      else if startswith s old then new @ replace (drop (length old) s) old new
      else hd s # replace (tl s) old new)"
  by pat_completeness auto
termination
  by (relation "measure (\<lambda>(s, old, new). length s)") auto

text \<open>\<^verbatim>\<open>s.split('/')\<close> and \<^verbatim>\<open>sep.join(xs)\<close>.\<close>

fun split_sep :: "string \<Rightarrow> string list" where
  "split_sep [] = [[]]"
| "split_sep (c # cs) =
     (if c = CHR ''/'' then [] # split_sep cs
      else (case split_sep cs of [] \<Rightarrow> [[c]] | w # ws \<Rightarrow> (c # w) # ws))"

fun join_with :: "string \<Rightarrow> string list \<Rightarrow> string" where
  "join_with s [] = []"
| "join_with s [x] = x"
| "join_with s (x # y # ys) = x @ s @ join_with s (y # ys)"

text \<open>\<^verbatim>\<open>str(n)\<close> for a natural number.\<close>

definition digit_char :: "nat \<Rightarrow> char" where
  "digit_char d = char_of (48 + d)"

function str_of_nat :: "nat \<Rightarrow> string" where
  "str_of_nat n = (if n < 10 then [digit_char n] else str_of_nat (n div 10) @ [digit_char (n mod 10)])"
  by pat_completeness auto
termination
  by (relation "measure (\<lambda>n. n)") auto

subsection \<open>\<^verbatim>\<open>urllib.parse.quote\<close>\<close>

text \<open>
  \<^verbatim>\<open>quote(s)\<close> with its default \<^verbatim>\<open>safe='/'\<close>: the string is encoded in UTF-8; a byte that
  is an ASCII letter, a digit or one of \<^verbatim>\<open>_.-~/\<close> stays, every other byte becomes \<^verbatim>\<open>%XX\<close>
  with upper-case hexadecimal digits.
\<close>

definition quote_safe :: "char \<Rightarrow> bool" where
  "quote_safe c =
     (let n = (of_char c :: nat)
      in (65 \<le> n \<and> n \<le> 90) \<or> (97 \<le> n \<and> n \<le> 122) \<or> (48 \<le> n \<and> n \<le> 57)
         \<or> c = CHR ''_'' \<or> c = CHR ''.'' \<or> c = CHR ''-'' \<or> c = CHR ''~'' \<or> c = CHR ''/'')"

definition hex_digit :: "nat \<Rightarrow> char" where
  "hex_digit d = (if d < 10 then char_of (48 + d) else char_of (55 + d))"

definition percent :: "nat \<Rightarrow> string" where
  "percent b = [CHR ''%'', hex_digit (b div 16), hex_digit (b mod 16)]"

definition utf8 :: "char \<Rightarrow> nat list" where
  "utf8 c = (let n = (of_char c :: nat) in if n < 128 then [n] else [192 + n div 64, 128 + n mod 64])"

definition quote_byte :: "nat \<Rightarrow> string" where
  "quote_byte b = (if b < 128 \<and> quote_safe (char_of b) then [char_of b] else percent b)"

definition quote :: "string \<Rightarrow> string" where
  "quote s = concat (map (\<lambda>c. concat (map quote_byte (utf8 c))) s)"

subsection \<open>\<^verbatim>\<open>posixpath\<close>\<close>

definition isabs :: "path \<Rightarrow> bool" where
  "isabs p = startswith p ''/''"

text \<open>\<^verbatim>\<open>os.path.join(a, b)\<close>.\<close>

definition path_join :: "path \<Rightarrow> path \<Rightarrow> path" where
  "path_join a b =
     (if startswith b ''/'' then b
      else if a = [] \<or> last a = CHR ''/'' then a @ b
      else a @ ''/'' @ b)"

text \<open>
  \<^verbatim>\<open>os.path.normpath\<close>. \<open>normpath_step\<close> is the body of its loop over the components:
  empty and \<^verbatim>\<open>.\<close> components are dropped, \<^verbatim>\<open>..\<close> removes the component before it
  unless there is none to remove.
\<close>

definition normpath_step :: "nat \<Rightarrow> string list \<Rightarrow> string \<Rightarrow> string list" where
  "normpath_step initial_slashes new_comps comp' =
     (if comp' = [] \<or> comp' = ''.'' then new_comps
      else if comp' \<noteq> ''..'' \<or> (initial_slashes = 0 \<and> new_comps = [])
              \<or> (new_comps \<noteq> [] \<and> last new_comps = ''..'')
        then new_comps @ [comp']
      else if new_comps \<noteq> [] then butlast new_comps
      else new_comps)"

definition normpath :: "path \<Rightarrow> path" where
  "normpath p =
     (if p = [] then ''.''
      else
        let initial_slashes =
              (if startswith p ''/''
               then (if startswith p ''//'' \<and> \<not> startswith p ''///'' then 2 else 1)
               else (0::nat));
            comps = foldl (normpath_step initial_slashes) [] (split_sep p);
            q = replicate initial_slashes (CHR ''/'') @ join_with ''/'' comps
        in if q = [] then ''.'' else q)"

text \<open>\<^verbatim>\<open>os.path.abspath\<close>, with the working directory as a parameter.\<close>

definition abspath :: "path \<Rightarrow> path \<Rightarrow> path" where
  "abspath cwd p = normpath (if isabs p then p else path_join cwd p)"

text \<open>\<^verbatim>\<open>os.path.commonprefix\<close> of two lists: their longest common prefix.\<close>

fun commonprefix :: "'a list \<Rightarrow> 'a list \<Rightarrow> 'a list" where
  "commonprefix (x # xs) (y # ys) = (if x = y then x # commonprefix xs ys else [])"
| "commonprefix _ _ = []"

text \<open>
  \<^verbatim>\<open>os.path.relpath(path, start)\<close>. An empty \<open>path\<close> raises \<^verbatim>\<open>ValueError\<close>; this is the
  only exception the plugin's calls can meet on strings.
\<close>

definition relpath :: "path \<Rightarrow> path \<Rightarrow> path \<Rightarrow> error + path" where
  "relpath cwd p start =
     (if p = [] then Inl ValueError
      else
        let start_list = filter (\<lambda>x. x \<noteq> []) (split_sep (abspath cwd start));
            path_list = filter (\<lambda>x. x \<noteq> []) (split_sep (abspath cwd p));
            i = length (commonprefix start_list path_list);
            rel_list = replicate (length start_list - i) ''..'' @ drop i path_list
        in if rel_list = [] then Inr ''.'' else Inr (join_with ''/'' rel_list))"

text \<open>\<^verbatim>\<open>os.path.dirname\<close> and \<^verbatim>\<open>os.path.basename\<close>: the path is cut after its last slash.\<close>

definition dirname :: "path \<Rightarrow> path" where
  "dirname p =
     (let head = rev (dropWhile (\<lambda>c. c \<noteq> CHR ''/'') (rev p))
      in if head \<noteq> [] \<and> head \<noteq> replicate (length head) (CHR ''/'')
         then rev (dropWhile (\<lambda>c. c = CHR ''/'') (rev head))
         else head)"

definition basename :: "path \<Rightarrow> path" where
  "basename p = rev (takeWhile (\<lambda>c. c \<noteq> CHR ''/'') (rev p))"

section \<open>Regular expressions\<close>

text \<open>
  The part of Python's \<^verbatim>\<open>re\<close> that \<^verbatim>\<open>AUTOLINK_RE\<close> uses: literal text, negated character
  classes, sequence, alternation, greedy repetition and numbered capturing groups.
\<close>

datatype regex =
    Lit string
  | NoneOf "char list"
  | Seq regex regex
  | Alt regex regex
  | Star regex
  | Group nat regex

text \<open>
  A matcher state is the text still to be read and the groups captured so far (the
  latest capture of a group first). \<open>rmatch r st\<close> lists every way of matching \<open>r\<close> at the
  start of the text, in the order in which a backtracking matcher tries them: the left
  alternative before the right one, and more repetitions before fewer. Its first entry
  is the match Python reports. \<open>iterate k r\<close> is the repetition of \<open>r\<close>; an iteration
  has to read at least one character, so at most as many iterations as there are
  characters left are possible, and \<open>k\<close> starts there.
\<close>

type_synonym mstate = "string \<times> (nat \<times> string) list"

fun rmatch :: "regex \<Rightarrow> mstate \<Rightarrow> mstate list"
  and iterate :: "nat \<Rightarrow> regex \<Rightarrow> mstate \<Rightarrow> mstate list" where
  "rmatch (Lit t) st = (if startswith (fst st) t then [(drop (length t) (fst st), snd st)] else [])"
| "rmatch (NoneOf cs) st =
     (case fst st of [] \<Rightarrow> [] | c # s' \<Rightarrow> if c \<in> set cs then [] else [(s', snd st)])"
| "rmatch (Seq a b) st = concat (map (rmatch b) (rmatch a st))"
| "rmatch (Alt a b) st = rmatch a st @ rmatch b st"
| "rmatch (Star a) st = iterate (length (fst st)) a st"
| "rmatch (Group n a) st =
     map (\<lambda>st'. (fst st', (n, take (length (fst st) - length (fst st')) (fst st)) # snd st'))
         (rmatch a st)"
| "iterate 0 a st = [st]"
| "iterate (Suc k) a st =
     concat (map (iterate k a)
                 (filter (\<lambda>st'. length (fst st') < length (fst st)) (rmatch a st))) @ [st]"

text \<open>\<^verbatim>\<open>r+\<close> is \<^verbatim>\<open>rr*\<close>; \<open>seqs\<close> and \<open>alts\<close> write a sequence and an alternation of several parts.\<close>

definition plus :: "regex \<Rightarrow> regex" where
  "plus r = Seq r (Star r)"

fun seqs :: "regex list \<Rightarrow> regex" where
  "seqs [] = Lit []"
| "seqs [r] = r"
| "seqs (r # rs) = Seq r (seqs rs)"

fun alts :: "regex \<Rightarrow> regex list \<Rightarrow> regex" where
  "alts r [] = r"
| "alts r (q # qs) = Alt r (alts q qs)"

text \<open>
  A match object: \<open>group0\<close> is the matched text, \<open>groups\<close> the captures. \<open>group m n\<close> is
  \<^verbatim>\<open>m.group(n)\<close>, \<open>None\<close> for a group that took no part in the match.
\<close>

record match =
  group0 :: string
  groups :: "(nat \<times> string) list"

definition group :: "match \<Rightarrow> nat \<Rightarrow> string option" where
  "group m n = (if n = 0 then Some (group0 m) else map_of (groups m) n)"

text \<open>The match of \<open>re\<close> at the start of \<open>s\<close>, if there is one.\<close>

definition re_match :: "regex \<Rightarrow> string \<Rightarrow> match option" where
  "re_match re s =
     (case rmatch re (s, []) of
        [] \<Rightarrow> None
      | st # _ \<Rightarrow> Some \<lparr>group0 = take (length s - length (fst st)) s, groups = snd st\<rparr>)"

text \<open>
  \<^verbatim>\<open>re.sub(re, repl, s)\<close> with a function \<open>repl\<close>: the text is scanned from left to right;
  where \<open>re\<close> matches, the match is replaced by what \<open>repl\<close> returns for it and the scan
  goes on after the match; elsewhere the character is copied. \<open>repl\<close> reads and writes
  a state \<open>'s\<close> and may raise; an exception ends the scan, and the state keeps what \<open>repl\<close>
  wrote until then.
\<close>

function re_sub ::
  "regex \<Rightarrow> (match \<Rightarrow> 's \<Rightarrow> 's \<times> (error + string)) \<Rightarrow> string \<Rightarrow> 's \<Rightarrow> 's \<times> (error + string)" where
  "re_sub re repl s st =
     (case re_match re s of
        None \<Rightarrow>
          (case s of
             [] \<Rightarrow> (st, Inr [])
           | c # cs \<Rightarrow>
               (case re_sub re repl cs st of
                  (st', Inl e) \<Rightarrow> (st', Inl e)
                | (st', Inr out) \<Rightarrow> (st', Inr (c # out))))
      | Some m \<Rightarrow>
          (case repl m st of
             (st1, Inl e) \<Rightarrow> (st1, Inl e)
           | (st1, Inr new) \<Rightarrow>
               (if group0 m = [] then
                  (case s of
                     [] \<Rightarrow> (st1, Inr new)
                   | c # cs \<Rightarrow>
                       (case re_sub re repl cs st1 of
                          (st', Inl e) \<Rightarrow> (st', Inl e)
                        | (st', Inr out) \<Rightarrow> (st', Inr (new @ c # out))))
                else
                  (case re_sub re repl (drop (length (group0 m)) s) st1 of
                     (st', Inl e) \<Rightarrow> (st', Inl e)
                   | (st', Inr out) \<Rightarrow> (st', Inr (new @ out))))))"
  by pat_completeness auto
termination
proof (relation "measure (\<lambda>(re, repl, s, st). length s)")
  show "wf (measure (\<lambda>(re, repl, s, st). length s))"
    by simp
next
  fix re :: regex and repl :: "match \<Rightarrow> 's \<Rightarrow> 's \<times> (error + string)" and s :: string and st :: 's
    and c cs
  assume "s = c # cs"
  then show "((re, repl, cs, st), (re, repl, s, st)) \<in> measure (\<lambda>(re, repl, s, st). length s)"
    by simp
next
  fix re :: regex and repl :: "match \<Rightarrow> 's \<Rightarrow> 's \<times> (error + string)" and s :: string and st :: 's
    and c cs and st1 :: 's
  assume "s = c # cs"
  then show "((re, repl, cs, st1), (re, repl, s, st)) \<in> measure (\<lambda>(re, repl, s, st). length s)"
    by simp
next
  fix re :: regex and repl :: "match \<Rightarrow> 's \<Rightarrow> 's \<times> (error + string)" and s :: string and st :: 's
    and m :: match and st1 :: 's
  assume "re_match re s = Some m" and "group0 m \<noteq> []"
  then have "s \<noteq> []"
    by (auto simp: re_match_def split: list.splits)
  with \<open>group0 m \<noteq> []\<close>
  show "((re, repl, drop (length (group0 m)) s, st1), (re, repl, s, st))
          \<in> measure (\<lambda>(re, repl, s, st). length s)"
    by (cases s) auto
qed

section \<open>The plugin\<close>

text \<open>
  \<^verbatim>\<open>AUTOLINK_RE\<close>, the pattern
  \<^verbatim>\<open>(?:\!\[\]|\[([^\]]+)\])\((([^)/]+\.(md|png|jpg|jpeg|bmp|gif))(#[^)]*)*)\)\<close>:
  group 1 is the label, group 2 the whole target, group 3 the file name, group 4 its
  extension and group 5 the anchor.
\<close>

definition AUTOLINK_RE :: regex where
  "AUTOLINK_RE =
     seqs [Alt (Lit ''![]'') (seqs [Lit ''['', Group 1 (plus (NoneOf '']'')), Lit '']'']),
           Lit ''('',
           Group 2 (seqs
             [Group 3 (seqs
                [plus (NoneOf '')/''), Lit ''.'',
                 Group 4 (alts (Lit ''md'')
                            [Lit ''png'', Lit ''jpg'', Lit ''jpeg'', Lit ''bmp'', Lit ''gif''])]),
              Star (Group 5 (Seq (Lit ''#'') (Star (NoneOf '')''))))]),
           Lit '')'']"

text \<open>
  A file of the documentation tree, as far as the plugin reads it: its absolute path
  and its path relative to the documents directory.
\<close>

record File =
  abs_src_path :: path
  src_path :: path

type_synonym filename_index = "(string \<times> path) list"
type_synonym missing_registry = "(string \<times> (path \<times> nat) list) list"
type_synonym duplicate_registry = "(string \<times> path list) list"

text \<open>
  \<^verbatim>\<open>d[k]\<close> on a \<^verbatim>\<open>defaultdict\<close> or a \<^verbatim>\<open>Counter\<close> whose key is known to be there, and
  the value a missing key stands for.
\<close>

definition lookup_default :: "'v \<Rightarrow> ('k \<times> 'v) list \<Rightarrow> 'k \<Rightarrow> 'v" where
  "lookup_default d al k = (case map_of al k of None \<Rightarrow> d | Some v \<Rightarrow> v)"

text \<open>
  \<^verbatim>\<open>self.missing_filenames[filename][rel_page_path] += 1\<close> on the
  \<^verbatim>\<open>defaultdict(Counter)\<close>: a missing counter is created, a missing count is 0.
\<close>

definition counter_add :: "missing_registry \<Rightarrow> string \<Rightarrow> path \<Rightarrow> missing_registry" where
  "counter_add missing filename rel_page_path =
     (let counter = lookup_default [] missing filename;
          n = lookup_default 0 counter rel_page_path
      in AList.update filename (AList.update rel_page_path (n + 1) counter) missing)"

text \<open>
  \<^verbatim>\<open>AutoLinkReplacer.__call__\<close>. The fields of the object are the arguments
  \<open>base_docs_dir\<close>, \<open>abs_page_path\<close> and \<open>filename_to_abs_path\<close>; the dictionary
  \<^verbatim>\<open>missing_filenames\<close>, which the object shares with the plugin and writes, is the
  state. The result is the text that replaces the match.
\<close>

definition AutoLinkReplacer ::
  "path \<Rightarrow> path \<Rightarrow> path \<Rightarrow> filename_index \<Rightarrow> match \<Rightarrow> missing_registry
     \<Rightarrow> missing_registry \<times> (error + string)" where
  "AutoLinkReplacer cwd base_docs_dir abs_page_path filename_to_abs_path m missing_filenames =
     (case group m 3 of
        None \<Rightarrow> (missing_filenames, Inl AttributeError)
      | Some group3 \<Rightarrow>
          (let filename = strip group3;
               abs_linker_dir = dirname abs_page_path
           in case map_of filename_to_abs_path filename of
                None \<Rightarrow>
                  (case relpath cwd abs_page_path base_docs_dir of
                     Inl e \<Rightarrow> (missing_filenames, Inl e)
                   | Inr rel_page_path \<Rightarrow>
                       (counter_add missing_filenames filename rel_page_path, Inr (group0 m)))
              | Some abs_link_path \<Rightarrow>
                  (case relpath cwd abs_link_path abs_linker_dir of
                     Inl e \<Rightarrow> (missing_filenames, Inl e)
                   | Inr p \<Rightarrow>
                       (missing_filenames, Inr (replace (group0 m) group3 (quote p))))))"

text \<open>
  The plugin object. \<open>filename_to_abs_path\<close> is \<open>None\<close> until the index has been
  built. \<open>AutoLinksPlugin_init\<close> is \<^verbatim>\<open>__init__\<close>.
\<close>

record AutoLinksPlugin =
  filename_to_abs_path :: "filename_index option"
  missing_filenames :: missing_registry
  duplicate_filenames :: duplicate_registry

definition AutoLinksPlugin_init :: AutoLinksPlugin where
  "AutoLinksPlugin_init =
     \<lparr>filename_to_abs_path = None, missing_filenames = [], duplicate_filenames = []\<rparr>"

text \<open>
  \<^verbatim>\<open>self.duplicate_filenames[filename]\<close> on the \<^verbatim>\<open>defaultdict(list)\<close>, which enters an
  empty list for a missing key, and \<^verbatim>\<open>self.duplicate_filenames[filename].append(p)\<close>.
\<close>

definition touch :: "duplicate_registry \<Rightarrow> string \<Rightarrow> duplicate_registry" where
  "touch dup filename = (case map_of dup filename of None \<Rightarrow> dup @ [(filename, [])] | Some _ \<Rightarrow> dup)"

definition append_path :: "duplicate_registry \<Rightarrow> string \<Rightarrow> path \<Rightarrow> duplicate_registry" where
  "append_path dup filename p = AList.update filename (lookup_default [] dup filename @ [p]) dup"

text \<open>
  The loop of \<^verbatim>\<open>init_filename_to_abs_path\<close> over the files, on the index and the
  duplicate registry. \<^verbatim>\<open>relpath\<close> is called after the registry has been read, so an
  exception leaves the entry that the read created.
\<close>

fun init_loop ::
  "path \<Rightarrow> path \<Rightarrow> File list \<Rightarrow> filename_index \<Rightarrow> duplicate_registry
     \<Rightarrow> (filename_index \<times> duplicate_registry) \<times> (error + unit)" where
  "init_loop cwd docs_dir [] ix dup = ((ix, dup), Inr ())"
| "init_loop cwd docs_dir (file' # files) ix dup =
     (let filename = basename (abs_src_path file')
      in case map_of ix filename of
           Some indexed \<Rightarrow>
             (let dup1 = touch dup filename
              in if length (lookup_default [] dup1 filename) = 0 then
                   (case relpath cwd indexed docs_dir of
                      Inl e \<Rightarrow> ((ix, dup1), Inl e)
                    | Inr p \<Rightarrow>
                        init_loop cwd docs_dir files ix
                          (append_path (append_path dup1 filename p) filename (src_path file')))
                 else init_loop cwd docs_dir files ix (append_path dup1 filename (src_path file')))
         | None \<Rightarrow> init_loop cwd docs_dir files (AList.update filename (abs_src_path file') ix) dup)"

definition init_filename_to_abs_path ::
  "path \<Rightarrow> AutoLinksPlugin \<Rightarrow> File list \<Rightarrow> path \<Rightarrow> AutoLinksPlugin \<times> (error + unit)" where
  "init_filename_to_abs_path cwd self files docs_dir =
     (case init_loop cwd docs_dir files [] (duplicate_filenames self) of
        ((ix, dup), r) \<Rightarrow> (self\<lparr>filename_to_abs_path := Some ix, duplicate_filenames := dup\<rparr>, r))"

text \<open>
  \<^verbatim>\<open>on_page_markdown(markdown, page, config, files)\<close>: \<open>page_file\<close> is \<^verbatim>\<open>page.file\<close> and
  \<open>base_docs_dir\<close> is \<^verbatim>\<open>config["docs_dir"]\<close>. The result is the plugin object after the
  call and the markdown returned, or the exception raised.
\<close>

definition on_page_markdown ::
  "path \<Rightarrow> AutoLinksPlugin \<Rightarrow> string \<Rightarrow> File \<Rightarrow> path \<Rightarrow> File list
     \<Rightarrow> AutoLinksPlugin \<times> (error + string)" where
  "on_page_markdown cwd self markdown page_file base_docs_dir files =
     (case (case filename_to_abs_path self of
              None \<Rightarrow> init_filename_to_abs_path cwd self files base_docs_dir
            | Some _ \<Rightarrow> (self, Inr ())) of
        (self1, Inl e) \<Rightarrow> (self1, Inl e)
      | (self1, Inr _) \<Rightarrow>
          (case filename_to_abs_path self1 of
             None \<Rightarrow> (self1, Inl TypeError)
           | Some ix \<Rightarrow>
               (case re_sub AUTOLINK_RE
                       (AutoLinkReplacer cwd base_docs_dir (abs_src_path page_file) ix)
                       markdown (missing_filenames self1) of
                  (missing, r) \<Rightarrow> (self1\<lparr>missing_filenames := missing\<rparr>, r))))"

text \<open>
  \<^verbatim>\<open>generate_report\<close>. The two loops append one string per file name to a list, over the
  sorted keys of the registries; \<open>duplicate_line\<close> and \<open>missing_lines\<close> are their bodies.
\<close>

definition newline :: string where
  "newline = [CHR 0x0A]"

definition duplicate_line :: "duplicate_registry \<Rightarrow> string \<Rightarrow> string" where
  "duplicate_line dup filename =
     (let paths = join_with '', '' (map (\<lambda>p. ''`'' @ p @ ''`'') (lookup_default [] dup filename))
      in ''- [ ] '' @ filename @ '', at '' @ paths)"

definition ref_line :: "(path \<times> nat) list \<Rightarrow> path \<Rightarrow> string" where
  "ref_line counter ref_path =
     (let occurences = lookup_default 0 counter ref_path
      in ''  - `'' @ ref_path @ ''` ('' @ str_of_nat occurences @ '' occurences)'')"

definition missing_lines :: "missing_registry \<Rightarrow> string \<Rightarrow> string" where
  "missing_lines missing filename =
     (let counter = lookup_default [] missing filename;
          ref_strs = foldl (\<lambda>acc ref_path. acc @ [ref_line counter ref_path]) [] (map fst counter);
          refs_str = join_with newline ref_strs;
          num_files = length counter
      in ''- [ ] '' @ filename @ '', in '' @ str_of_nat num_files @ '' file(s)'' @ newline @ refs_str)"

definition generate_report :: "AutoLinksPlugin \<Rightarrow> string" where
  "generate_report self =
     (let duplicate_filenames_strs =
            foldl (\<lambda>acc filename. acc @ [duplicate_line (duplicate_filenames self) filename])
                  [] (sort (map fst (duplicate_filenames self)));
          duplicate_filenames_str = join_with newline duplicate_filenames_strs;
          missing_filenames_strs =
            foldl (\<lambda>acc filename. acc @ [missing_lines (missing_filenames self) filename])
                  [] (sort (map fst (missing_filenames self)));
          missing_filenames_str = join_with newline missing_filenames_strs
      in ''# AutoLinksPlugin report'' @ newline @ newline
         @ ''## Duplicate filenames'' @ newline @ newline
         @ duplicate_filenames_str @ newline @ newline
         @ ''## Missing filenames'' @ newline @ newline
         @ missing_filenames_str @ newline)"

text \<open>
  What the duplicate registry holds for one file name after the loop has met the files
  \<open>fs\<close> of that name while \<open>a\<close> was the indexed path: \<open>old\<close> is the entry before; an
  empty or missing entry starts with the relative path of the indexed file.
\<close>

definition entry_after ::
  "path \<Rightarrow> path \<Rightarrow> path list option \<Rightarrow> path \<Rightarrow> File list \<Rightarrow> path list option" where
  "entry_after cwd docs_dir old a fs =
     (if fs = [] then old
      else Some ((case old of
                    None \<Rightarrow> [projr (relpath cwd a docs_dir)]
                  | Some l \<Rightarrow> if l = [] then [projr (relpath cwd a docs_dir)] else l)
                 @ map src_path fs))"

section \<open>Example inputs\<close>

text \<open>Three files of one name, in the directories \<^verbatim>\<open>a\<close>, \<^verbatim>\<open>b\<close> and \<^verbatim>\<open>c\<close> of \<^verbatim>\<open>/docs\<close>.\<close>

definition example_files :: "File list" where
  "example_files =
     [\<lparr>abs_src_path = ''/docs/a/x.md'', src_path = ''a/x.md''\<rparr>,
      \<lparr>abs_src_path = ''/docs/b/x.md'', src_path = ''b/x.md''\<rparr>,
      \<lparr>abs_src_path = ''/docs/c/x.md'', src_path = ''c/x.md''\<rparr>]"

text \<open>
  Two builds handled by one plugin object: between them the file \<^verbatim>\<open>notes.md\<close> moves from
  the directory \<^verbatim>\<open>a\<close> to the directory \<^verbatim>\<open>b\<close>. \<open>after_build1\<close> is the object after the
  page \<^verbatim>\<open>index.md\<close> of the first build has been processed.
\<close>

definition build1_files :: "File list" where
  "build1_files =
     [\<lparr>abs_src_path = ''/docs/index.md'', src_path = ''index.md''\<rparr>,
      \<lparr>abs_src_path = ''/docs/a/notes.md'', src_path = ''a/notes.md''\<rparr>]"

definition build2_files :: "File list" where
  "build2_files =
     [\<lparr>abs_src_path = ''/docs/index.md'', src_path = ''index.md''\<rparr>,
      \<lparr>abs_src_path = ''/docs/b/notes.md'', src_path = ''b/notes.md''\<rparr>]"

definition after_build1 :: AutoLinksPlugin where
  "after_build1 =
     fst (on_page_markdown ''/home'' AutoLinksPlugin_init ''[n](notes.md)''
            (hd build1_files) ''/docs'' build1_files)"

text \<open>
  For the lemmas about the matcher: the groups that occur in a pattern, and what a
  step from \<open>st\<close> to \<open>st'\<close> has read (\<open>x\<close>) and captured (\<open>new\<close>).
\<close>

primrec groups_of :: "regex \<Rightarrow> nat set" where
  "groups_of (Lit t) = {}"
| "groups_of (NoneOf cs) = {}"
| "groups_of (Seq a b) = groups_of a \<union> groups_of b"
| "groups_of (Alt a b) = groups_of a \<union> groups_of b"
| "groups_of (Star a) = groups_of a"
| "groups_of (Group n a) = insert n (groups_of a)"

definition consumes :: "regex \<Rightarrow> mstate \<Rightarrow> mstate \<Rightarrow> string \<Rightarrow> (nat \<times> string) list \<Rightarrow> bool" where
  "consumes r st st' x new =
     (fst st = x @ fst st' \<and> snd st' = new @ snd st \<and> fst ` set new \<subseteq> groups_of r)"

text \<open>The parts of \<open>AUTOLINK_RE\<close>.\<close>

definition re_opening :: regex where
  "re_opening = Alt (Lit ''![]'') (Seq (Lit ''['') (Seq (Group 1 (plus (NoneOf '']''))) (Lit '']'')))"

definition re_extension :: regex where
  "re_extension =
     Alt (Lit ''md'') (Alt (Lit ''png'') (Alt (Lit ''jpg'') (Alt (Lit ''jpeg'')
       (Alt (Lit ''bmp'') (Lit ''gif'')))))"

definition extensions :: "string list" where
  "extensions = [''md'', ''png'', ''jpg'', ''jpeg'', ''bmp'', ''gif'']"

definition re_filename :: regex where
  "re_filename = Seq (plus (NoneOf '')/'')) (Seq (Lit ''.'') (Group 4 re_extension))"

definition re_anchor :: regex where
  "re_anchor = Group 5 (Seq (Lit ''#'') (Star (NoneOf '')'')))"

text \<open>\<^verbatim>\<open>missing_filenames[filename][rel_page_path]\<close>, read without entering anything.\<close>

definition occurrences :: "missing_registry \<Rightarrow> string \<Rightarrow> path \<Rightarrow> nat" where
  "occurrences missing filename rel_page_path =
     lookup_default 0 (lookup_default [] missing filename) rel_page_path"

(*END-DEFS*)
section \<open>The index builder\<close>

lemma map_of_touch:
  "map_of (touch dup k) b = (if b = k \<and> map_of dup k = None then Some [] else map_of dup b)"
  by (auto simp: touch_def map_add_def split: option.splits)

lemma map_of_append_path:
  "map_of (append_path dup k p) b =
     (if b = k then Some (lookup_default [] dup k @ [p]) else map_of dup b)"
  by (simp add: append_path_def update_conv')

lemma relpath_nonempty: "a \<noteq> [] \<Longrightarrow> \<exists>p. relpath cwd a d = Inr p"
  by (simp add: relpath_def Let_def)

lemma relpath_Inl: "relpath cwd a d = Inl e \<Longrightarrow> a = [] \<and> e = ValueError"
  by (simp add: relpath_def Let_def split: if_splits)

text \<open>
  The loop, started on any index whose paths are not empty: it ends without an
  exception, an indexed name keeps its path, and a new name gets the path of the first
  file that has it.
\<close>

lemma init_loop_index:
  assumes "\<forall>f \<in> set files. abs_src_path f \<noteq> []"
    and "\<forall>k a. map_of ix k = Some a \<longrightarrow> a \<noteq> []"
    and "init_loop cwd docs_dir files ix dup = ((ix', dup'), r)"
  shows "r = Inr () \<and>
         map_of ix' b =
           (case map_of ix b of
              Some a \<Rightarrow> Some a
            | None \<Rightarrow> map_option abs_src_path (find (\<lambda>f. basename (abs_src_path f) = b) files))"
  using assms
proof (induction files arbitrary: ix dup)
  case Nil
  then show ?case by (simp split: option.splits)
next
  case (Cons f fs)
  let ?k = "basename (abs_src_path f)"
  show ?case
  proof (cases "map_of ix ?k")
    case None
    let ?ix1 = "AList.update ?k (abs_src_path f) ix"
    from Cons.prems(3) None have run: "init_loop cwd docs_dir fs ?ix1 dup = ((ix', dup'), r)"
      by simp
    have inv: "\<forall>k a. map_of ?ix1 k = Some a \<longrightarrow> a \<noteq> []"
      using Cons.prems(1,2) by (auto simp: update_conv')
    have "r = Inr () \<and>
         map_of ix' b =
           (case map_of ?ix1 b of
              Some a \<Rightarrow> Some a
            | None \<Rightarrow> map_option abs_src_path (find (\<lambda>f. basename (abs_src_path f) = b) fs))"
      using Cons.IH[OF _ inv run] Cons.prems(1) by simp
    then show ?thesis using None
      by (auto simp: update_conv' split: option.splits)
  next
    case (Some a)
    then have "a \<noteq> []" using Cons.prems(2) by blast
    then obtain p where p: "relpath cwd a docs_dir = Inr p"
      using relpath_nonempty by blast
    from Cons.prems(3) Some p
    obtain dup1 where run: "init_loop cwd docs_dir fs ix dup1 = ((ix', dup'), r)"
      by (auto simp: Let_def split: if_splits)
    have "r = Inr () \<and>
         map_of ix' b =
           (case map_of ix b of
              Some a \<Rightarrow> Some a
            | None \<Rightarrow> map_option abs_src_path (find (\<lambda>f. basename (abs_src_path f) = b) fs))"
      using Cons.IH[OF _ Cons.prems(2) run] Cons.prems(1) by simp
    then show ?thesis using Some
      by (auto split: option.splits)
  qed
qed

lemma init_loop_distinct:
  assumes "distinct (map fst ix)"
    and "init_loop cwd docs_dir files ix dup = ((ix', dup'), r)"
  shows "distinct (map fst ix')"
  using assms
proof (induction files arbitrary: ix dup)
  case Nil
  then show ?case by simp
next
  case (Cons f fs)
  let ?k = "basename (abs_src_path f)"
  show ?case
  proof (cases "map_of ix ?k")
    case None
    with Cons.prems(2)
    have "init_loop cwd docs_dir fs (AList.update ?k (abs_src_path f) ix) dup = ((ix', dup'), r)"
      by simp
    moreover have "distinct (map fst (AList.update ?k (abs_src_path f) ix))"
      using Cons.prems(1) by (simp add: distinct_update)
    ultimately show ?thesis using Cons.IH by blast
  next
    case (Some a)
    with Cons.prems(2)
    have "ix' = ix \<or> (\<exists>dup1. init_loop cwd docs_dir fs ix dup1 = ((ix', dup'), r))"
      by (auto simp: Let_def split: if_splits sum.splits)
    then show ?thesis using Cons.IH Cons.prems(1) by blast
  qed
qed

text \<open>The entry of the duplicate registry for a file name \<open>b\<close> after the loop.\<close>

lemma init_loop_registry:
  assumes "\<forall>f \<in> set files. abs_src_path f \<noteq> []"
    and "\<forall>k a. map_of ix k = Some a \<longrightarrow> a \<noteq> []"
    and "init_loop cwd docs_dir files ix dup = ((ix', dup'), r)"
  shows "map_of dup' b =
           (case map_of ix b of
              None \<Rightarrow>
                (case filter (\<lambda>f. basename (abs_src_path f) = b) files of
                   [] \<Rightarrow> map_of dup b
                 | f1 # rest \<Rightarrow> entry_after cwd docs_dir (map_of dup b) (abs_src_path f1) rest)
            | Some a \<Rightarrow>
                entry_after cwd docs_dir (map_of dup b) a
                  (filter (\<lambda>f. basename (abs_src_path f) = b) files))"
  using assms
proof (induction files arbitrary: ix dup)
  case Nil
  then show ?case by (simp add: entry_after_def split: option.splits)
next
  case (Cons f fs)
  let ?k = "basename (abs_src_path f)"
  show ?case
  proof (cases "map_of ix ?k")
    case None
    let ?ix1 = "AList.update ?k (abs_src_path f) ix"
    from Cons.prems(3) None have run: "init_loop cwd docs_dir fs ?ix1 dup = ((ix', dup'), r)"
      by simp
    have inv: "\<forall>k a. map_of ?ix1 k = Some a \<longrightarrow> a \<noteq> []"
      using Cons.prems(1,2) by (auto simp: update_conv')
    have fs: "\<forall>f \<in> set fs. abs_src_path f \<noteq> []"
      using Cons.prems(1) by simp
    note IH = Cons.IH[OF fs inv run]
    show ?thesis
    proof (cases "b = ?k")
      case True
      with IH None show ?thesis by (simp add: update_conv')
    next
      case False
      then have "?k \<noteq> b" by blast
      with IH None False show ?thesis
        by (cases "map_of ix b") (simp_all add: update_conv')
    qed
  next
    case (Some a)
    then have "a \<noteq> []" using Cons.prems(2) by blast
    then obtain p where p: "relpath cwd a docs_dir = Inr p"
      using relpath_nonempty by blast
    define dup1 where "dup1 = touch dup ?k"
    define dup2 where "dup2 =
      (if lookup_default [] dup1 ?k = []
       then append_path (append_path dup1 ?k p) ?k (src_path f)
       else append_path dup1 ?k (src_path f))"
    from Cons.prems(3) Some p have run: "init_loop cwd docs_dir fs ix dup2 = ((ix', dup'), r)"
      by (auto simp: Let_def dup1_def dup2_def split: if_splits)
    have fs: "\<forall>f \<in> set fs. abs_src_path f \<noteq> []"
      using Cons.prems(1) by simp
    note IH = Cons.IH[OF fs Cons.prems(2) run]
    have other: "c \<noteq> ?k \<Longrightarrow> map_of dup2 c = map_of dup c" for c
      by (simp add: dup2_def dup1_def map_of_append_path map_of_touch)
    have same: "map_of dup2 ?k =
        Some ((case map_of dup ?k of
                 None \<Rightarrow> [p]
               | Some l \<Rightarrow> if l = [] then [p] else l) @ [src_path f])"
      by (auto simp: dup2_def dup1_def map_of_append_path map_of_touch lookup_default_def
               split: option.splits)
    show ?thesis
    proof (cases "b = ?k")
      case True
      with IH Some same p show ?thesis
        by (simp add: entry_after_def split: option.splits)
    next
      case False
      then have "?k \<noteq> b" by blast
      with IH other[of b] False show ?thesis
        by (cases "map_of ix b") (simp_all split: list.splits)
    qed
  qed
qed

lemma example_files_abs: "\<forall>f \<in> set example_files. abs_src_path f \<noteq> []"
  by (simp add: example_files_def)

lemma example_files_init:
  "init_filename_to_abs_path ''/home'' AutoLinksPlugin_init example_files ''/docs'' =
     (\<lparr>filename_to_abs_path = Some [(''x.md'', ''/docs/a/x.md'')], missing_filenames = [],
       duplicate_filenames = [(''x.md'', [''a/x.md'', ''b/x.md'', ''c/x.md''])]\<rparr>, Inr ())"
  by code_simp

text \<open>
  C3. For every sequence of files (with absolute paths, which are not empty), the
  index builder ends without an exception, and the index it leaves has distinct keys,
  one for each base name that occurs, mapped to the absolute path of the first file of
  the sequence that has this base name: later files of the same name do not overwrite it.
\<close>

theorem index_first_file_wins:
  assumes "\<forall>f \<in> set files. abs_src_path f \<noteq> []"
    and "init_filename_to_abs_path cwd self files docs_dir = (self', r)"
  shows "r = Inr () \<and>
         (\<exists>ix. filename_to_abs_path self' = Some ix \<and> distinct (map fst ix) \<and>
               (\<forall>b. map_of ix b =
                      map_option abs_src_path
                        (find (\<lambda>f. basename (abs_src_path f) = b) files)))"
proof -
  obtain ix dup where loop: "init_loop cwd docs_dir files [] (duplicate_filenames self) = ((ix, dup), r)"
    and self': "self' = self\<lparr>filename_to_abs_path := Some ix, duplicate_filenames := dup\<rparr>"
    using assms(2) by (auto simp: init_filename_to_abs_path_def split: prod.splits)
  have "r = Inr ()"
    and "\<And>b. map_of ix b =
          map_option abs_src_path (find (\<lambda>f. basename (abs_src_path f) = b) files)"
    using init_loop_index[OF assms(1) _ loop] by simp_all
  moreover have "distinct (map fst ix)"
    using init_loop_distinct[OF _ loop] by simp
  ultimately show ?thesis using self' by simp
qed

theorem index_first_file_wins_witness:
  "\<exists>self'. init_filename_to_abs_path ''/home'' AutoLinksPlugin_init example_files ''/docs''
             = (self', Inr ()) \<and>
           filename_to_abs_path self' = Some [(''x.md'', ''/docs/a/x.md'')] \<and>
           map_of [(''x.md'', ''/docs/a/x.md'')] ''x.md'' =
             map_option abs_src_path
               (find (\<lambda>f. basename (abs_src_path f) = ''x.md'') example_files)"
proof -
  from index_first_file_wins[OF example_files_abs example_files_init]
  have "\<forall>b. map_of [(''x.md'', ''/docs/a/x.md'')] b =
          map_option abs_src_path (find (\<lambda>f. basename (abs_src_path f) = b) example_files)"
    by simp
  then have "map_of [(''x.md'', ''/docs/a/x.md'')] ''x.md'' =
          map_option abs_src_path
            (find (\<lambda>f. basename (abs_src_path f) = ''x.md'') example_files)"
    by (rule spec)
  with example_files_init show ?thesis
    by simp
qed

lemma example_files_x: "filter (\<lambda>f. basename (abs_src_path f) = ''x.md'') example_files = example_files"
  by code_simp

text \<open>
  C4. Started on the empty registry, the index builder leaves an entry for a base name
  exactly when at least two files of the sequence have this name. The entry is as long
  as the number of these files: it starts with the relative path of the first of them
  (the file in the index), computed from its absolute path, followed by the
  \<^verbatim>\<open>src_path\<close> of the others in the order of the sequence.
\<close>

theorem duplicate_registry_entries:
  assumes "\<forall>f \<in> set files. abs_src_path f \<noteq> []"
    and "duplicate_filenames self = []"
    and "init_filename_to_abs_path cwd self files docs_dir = (self', r)"
  shows "let fs = filter (\<lambda>f. basename (abs_src_path f) = b) files;
             entry = map_of (duplicate_filenames self') b
         in (b \<in> fst ` set (duplicate_filenames self')) = (2 \<le> length fs) \<and>
            (\<forall>l. entry = Some l \<longrightarrow> length l = length fs) \<and>
            (2 \<le> length fs \<longrightarrow>
               (\<exists>p. relpath cwd (abs_src_path (hd fs)) docs_dir = Inr p \<and>
                    entry = Some (p # map src_path (tl fs))))"
proof -
  define fs where "fs = filter (\<lambda>f. basename (abs_src_path f) = b) files"
  obtain ix dup where loop: "init_loop cwd docs_dir files [] [] = ((ix, dup), r)"
    and self': "self' = self\<lparr>filename_to_abs_path := Some ix, duplicate_filenames := dup\<rparr>"
    using assms(2,3) by (auto simp: init_filename_to_abs_path_def split: prod.splits)
  have entry: "map_of dup b =
      (case fs of [] \<Rightarrow> None | f1 # rest \<Rightarrow> entry_after cwd docs_dir None (abs_src_path f1) rest)"
    using init_loop_registry[OF assms(1) _ loop, of b] by (simp add: fs_def split: list.splits)
  have keys: "(b \<in> fst ` set dup) = (map_of dup b \<noteq> None)"
    by (simp add: map_of_eq_None_iff)
  show ?thesis
  proof (cases fs)
    case Nil
    with entry keys self' show ?thesis
      by (simp add: fs_def[symmetric] Let_def)
  next
    case (Cons f1 rest)
    then have "f1 \<in> set fs" by simp
    then have "f1 \<in> set files"
      by (simp add: fs_def)
    then have "abs_src_path f1 \<noteq> []" using assms(1) by blast
    then obtain p where p: "relpath cwd (abs_src_path f1) docs_dir = Inr p"
      using relpath_nonempty by blast
    show ?thesis
    proof (cases rest)
      case Nil
      with Cons entry keys self' show ?thesis
        by (simp add: fs_def[symmetric] Let_def entry_after_def)
    next
      case (Cons f2 rest')
      with \<open>fs = f1 # rest\<close> entry keys self' p show ?thesis
        by (simp add: fs_def[symmetric] Let_def entry_after_def)
    qed
  qed
qed

theorem duplicate_registry_entries_witness:
  "\<exists>self'. init_filename_to_abs_path ''/home'' AutoLinksPlugin_init example_files ''/docs''
             = (self', Inr ()) \<and>
           filename_to_abs_path self' = Some [(''x.md'', ''/docs/a/x.md'')] \<and>
           ''x.md'' \<in> fst ` set (duplicate_filenames self') \<and>
           length example_files = 3 \<and>
           relpath ''/home'' ''/docs/a/x.md'' ''/docs'' = Inr ''a/x.md'' \<and>
           map_of (duplicate_filenames self') ''x.md'' = Some [''a/x.md'', ''b/x.md'', ''c/x.md'']"
proof -
  have init: "duplicate_filenames AutoLinksPlugin_init = []"
    by (simp add: AutoLinksPlugin_init_def)
  have len: "2 \<le> length example_files" "length example_files = 3"
    by (simp_all add: example_files_def)
  have rel: "relpath ''/home'' ''/docs/a/x.md'' ''/docs'' = Inr ''a/x.md''"
    by code_simp
  from duplicate_registry_entries[OF example_files_abs init example_files_init, of "''x.md''"]
  show ?thesis
    using len rel example_files_init
    by (simp add: example_files_x Let_def)
qed

section \<open>The index across pages and builds\<close>

lemma after_build1_eq:
  "after_build1 =
     \<lparr>filename_to_abs_path =
        Some [(''index.md'', ''/docs/index.md''), (''notes.md'', ''/docs/a/notes.md'')],
      missing_filenames = [], duplicate_filenames = []\<rparr>"
  by code_simp

lemma build2_same_object:
  "on_page_markdown ''/home'' after_build1 ''[n](notes.md)'' (hd build2_files) ''/docs'' build2_files =
     (\<lparr>filename_to_abs_path =
         Some [(''index.md'', ''/docs/index.md''), (''notes.md'', ''/docs/a/notes.md'')],
       missing_filenames = [], duplicate_filenames = []\<rparr>,
      Inr ''[n](a/notes.md)'')"
  by code_simp

lemma build2_new_object:
  "on_page_markdown ''/home'' AutoLinksPlugin_init ''[n](notes.md)'' (hd build2_files) ''/docs'' build2_files =
     (\<lparr>filename_to_abs_path =
         Some [(''index.md'', ''/docs/index.md''), (''notes.md'', ''/docs/b/notes.md'')],
       missing_filenames = [], duplicate_filenames = []\<rparr>,
      Inr ''[n](b/notes.md)'')"
  by code_simp

lemma build2_index:
  "init_filename_to_abs_path ''/home'' AutoLinksPlugin_init build2_files ''/docs'' =
     (\<lparr>filename_to_abs_path =
         Some [(''index.md'', ''/docs/index.md''), (''notes.md'', ''/docs/b/notes.md'')],
       missing_filenames = [], duplicate_filenames = []\<rparr>,
      Inr ())"
  by code_simp

lemma missing_page_same_object:
  "on_page_markdown ''/home'' after_build1 ''[g](ghost.png)'' (hd build1_files) ''/docs'' build1_files =
     (\<lparr>filename_to_abs_path =
         Some [(''index.md'', ''/docs/index.md''), (''notes.md'', ''/docs/a/notes.md'')],
       missing_filenames = [(''ghost.png'', [(''index.md'', 1)])], duplicate_filenames = []\<rparr>,
      Inr ''[g](ghost.png)'')"
  by code_simp

text \<open>
  C6, as the claim states it, fails: after the first build has built the index, the
  page of the second build is rewritten with the index of the first build's files
  (\<^verbatim>\<open>notes.md\<close> still in \<^verbatim>\<open>a\<close>), not with the index of the second build's files
  (\<^verbatim>\<open>notes.md\<close> in \<^verbatim>\<open>b\<close>), which a new plugin object would use.
\<close>

theorem index_rebuilt_per_build_counterexample:
  "snd (on_page_markdown ''/home'' after_build1 ''[n](notes.md)'' (hd build2_files)
          ''/docs'' build2_files) = Inr ''[n](a/notes.md)'' \<and>
   filename_to_abs_path
     (fst (on_page_markdown ''/home'' after_build1 ''[n](notes.md)'' (hd build2_files)
             ''/docs'' build2_files)) =
     Some [(''index.md'', ''/docs/index.md''), (''notes.md'', ''/docs/a/notes.md'')] \<and>
   filename_to_abs_path
     (fst (init_filename_to_abs_path ''/home'' AutoLinksPlugin_init build2_files ''/docs'')) =
     Some [(''index.md'', ''/docs/index.md''), (''notes.md'', ''/docs/b/notes.md'')] \<and>
   snd (on_page_markdown ''/home'' AutoLinksPlugin_init ''[n](notes.md)'' (hd build2_files)
          ''/docs'' build2_files) = Inr ''[n](b/notes.md)''"
  by (simp add: build2_same_object build2_new_object build2_index)

text \<open>
  C6, amended. The index is built by the first call of \<^verbatim>\<open>on_page_markdown\<close> that finds
  it uninitialised, from the files of that call, and it is kept from then on: a later
  call on the same plugin object, of the same build or of a following build, leaves the
  index as it is and returns the same result whatever files it is given.
\<close>

theorem index_built_once_per_object:
  "(filename_to_abs_path self = None \<longrightarrow>
      filename_to_abs_path (fst (on_page_markdown cwd self markdown page_file base_docs_dir files)) =
      filename_to_abs_path (fst (init_filename_to_abs_path cwd self files base_docs_dir))) \<and>
   (\<forall>ix. filename_to_abs_path self = Some ix \<longrightarrow>
      on_page_markdown cwd self markdown page_file base_docs_dir files' =
        on_page_markdown cwd self markdown page_file base_docs_dir files \<and>
      filename_to_abs_path (fst (on_page_markdown cwd self markdown page_file base_docs_dir files'))
        = Some ix)"
  by (auto simp: on_page_markdown_def init_filename_to_abs_path_def split: prod.splits sum.splits)

theorem index_built_once_per_object_witness:
  "on_page_markdown ''/home'' after_build1 ''[n](notes.md)'' (hd build2_files) ''/docs'' build2_files =
     on_page_markdown ''/home'' after_build1 ''[n](notes.md)'' (hd build2_files) ''/docs'' build1_files \<and>
   filename_to_abs_path
     (fst (on_page_markdown ''/home'' after_build1 ''[n](notes.md)'' (hd build2_files)
             ''/docs'' build2_files)) =
     Some [(''index.md'', ''/docs/index.md''), (''notes.md'', ''/docs/a/notes.md'')] \<and>
   filename_to_abs_path
     (fst (on_page_markdown ''/home'' AutoLinksPlugin_init ''[n](notes.md)'' (hd build2_files)
             ''/docs'' build2_files)) =
     filename_to_abs_path
       (fst (init_filename_to_abs_path ''/home'' AutoLinksPlugin_init build2_files ''/docs''))"
proof -
  have some: "filename_to_abs_path after_build1 =
      Some [(''index.md'', ''/docs/index.md''), (''notes.md'', ''/docs/a/notes.md'')]"
    by (simp add: after_build1_eq)
  have none: "filename_to_abs_path AutoLinksPlugin_init = None"
    by (simp add: AutoLinksPlugin_init_def)
  from index_built_once_per_object[of after_build1 "''/home''" "''[n](notes.md)''"
      "hd build2_files" "''/docs''" build1_files build2_files] some
  have "on_page_markdown ''/home'' after_build1 ''[n](notes.md)'' (hd build2_files) ''/docs'' build2_files =
     on_page_markdown ''/home'' after_build1 ''[n](notes.md)'' (hd build2_files) ''/docs'' build1_files"
    and "filename_to_abs_path
     (fst (on_page_markdown ''/home'' after_build1 ''[n](notes.md)'' (hd build2_files)
             ''/docs'' build2_files)) =
     Some [(''index.md'', ''/docs/index.md''), (''notes.md'', ''/docs/a/notes.md'')]"
    by blast+
  moreover
  from index_built_once_per_object[of AutoLinksPlugin_init "''/home''" "''[n](notes.md)''"
      "hd build2_files" "''/docs''" build2_files build2_files] none
  have "filename_to_abs_path
     (fst (on_page_markdown ''/home'' AutoLinksPlugin_init ''[n](notes.md)'' (hd build2_files)
             ''/docs'' build2_files)) =
     filename_to_abs_path
       (fst (init_filename_to_abs_path ''/home'' AutoLinksPlugin_init build2_files ''/docs''))"
    by simp
  ultimately show ?thesis by simp
qed

text \<open>
  C9. Once the index has been initialised, a call of \<^verbatim>\<open>on_page_markdown\<close> leaves the
  index and the duplicate registry as they were, whether it returns or raises: of the
  three fields of the plugin object only the missing registry can change.
\<close>

theorem page_rewrite_frame:
  assumes "filename_to_abs_path self = Some ix"
    and "on_page_markdown cwd self markdown page_file base_docs_dir files = (self', r)"
  shows "filename_to_abs_path self' = Some ix \<and>
         duplicate_filenames self' = duplicate_filenames self"
  using assms by (auto simp: on_page_markdown_def split: prod.splits)

theorem page_rewrite_frame_witness:
  "filename_to_abs_path
     (fst (on_page_markdown ''/home'' after_build1 ''[g](ghost.png)'' (hd build1_files)
             ''/docs'' build1_files)) =
     Some [(''index.md'', ''/docs/index.md''), (''notes.md'', ''/docs/a/notes.md'')] \<and>
   duplicate_filenames
     (fst (on_page_markdown ''/home'' after_build1 ''[g](ghost.png)'' (hd build1_files)
             ''/docs'' build1_files)) = duplicate_filenames after_build1 \<and>
   missing_filenames
     (fst (on_page_markdown ''/home'' after_build1 ''[g](ghost.png)'' (hd build1_files)
             ''/docs'' build1_files)) = [(''ghost.png'', [(''index.md'', 1)])] \<and>
   missing_filenames after_build1 = []"
proof -
  have some: "filename_to_abs_path after_build1 =
      Some [(''index.md'', ''/docs/index.md''), (''notes.md'', ''/docs/a/notes.md'')]"
    by (simp add: after_build1_eq)
  from page_rewrite_frame[OF some missing_page_same_object]
  show ?thesis
    by (simp add: missing_page_same_object) (simp add: after_build1_eq)
qed

section \<open>Recognised links\<close>

lemma rmatch_NoneOf:
  assumes "st' \<in> set (rmatch (NoneOf cs) st)"
  shows "\<exists>c. c \<notin> set cs \<and> fst st = c # fst st' \<and> snd st' = snd st"
proof (cases "fst st")
  case Nil
  with assms show ?thesis by simp
next
  case (Cons c s')
  with assms show ?thesis by (simp split: if_splits)
qed

lemma rmatch_extends:
  "st' \<in> set (rmatch r st) \<Longrightarrow> \<exists>x new. consumes r st st' x new"
  and iterate_extends:
  "st' \<in> set (iterate k r st) \<Longrightarrow> \<exists>x new. consumes r st st' x new"
proof (induction r st and k r st arbitrary: st' and st' rule: rmatch_iterate.induct)
  case (1 t st)
  then have "fst st = t @ fst st'" "snd st' = snd st"
    by (auto simp: startswith_def split: if_splits) (metis append_take_drop_id)
  then have "consumes (Lit t) st st' t []"
    by (simp add: consumes_def)
  then show ?case by blast
next
  case (2 cs st)
  from rmatch_NoneOf[OF this] obtain c where "fst st = [c] @ fst st'" "snd st' = snd st"
    by auto
  then have "consumes (NoneOf cs) st st' [c] []"
    by (simp add: consumes_def)
  then show ?case by blast
next
  case (3 a b st)
  from "3.prems" obtain mid where mid: "mid \<in> set (rmatch a st)" and st': "st' \<in> set (rmatch b mid)"
    by auto
  from "3.IH"(1)[OF mid] obtain x1 n1 where 1: "consumes a st mid x1 n1" by blast
  from "3.IH"(2)[OF mid st'] obtain x2 n2 where 2: "consumes b mid st' x2 n2" by blast
  from 1 2 have "consumes (Seq a b) st st' (x1 @ x2) (n2 @ n1)"
    by (auto simp: consumes_def)
  then show ?case by blast
next
  case (4 a b st)
  from "4.prems" have "st' \<in> set (rmatch a st) \<or> st' \<in> set (rmatch b st)"
    by simp
  then have "(\<exists>x new. consumes a st st' x new) \<or> (\<exists>x new. consumes b st st' x new)"
    using "4.IH" by blast
  then show ?case
    by (auto simp: consumes_def)
next
  case (5 a st)
  from "5.prems" have "st' \<in> set (iterate (length (fst st)) a st)"
    by simp
  then have "\<exists>x new. consumes a st st' x new" using "5.IH" by blast
  then show ?case by (auto simp: consumes_def)
next
  case (6 n a st)
  from "6.prems" obtain mid where mid: "mid \<in> set (rmatch a st)"
    and st': "st' = (fst mid, (n, take (length (fst st) - length (fst mid)) (fst st)) # snd mid)"
    by auto
  from "6.IH"[OF mid] obtain x new where "consumes a st mid x new" by blast
  with st' have "consumes (Group n a) st st' x ((n, x) # new)"
    by (auto simp: consumes_def)
  then show ?case by blast
next
  case (7 a st)
  then have "consumes a st st' [] []" by (simp add: consumes_def)
  then show ?case by blast
next
  case (8 k a st)
  from "8.prems" consider "st' = st"
    | mid where "mid \<in> set (rmatch a st)" "length (fst mid) < length (fst st)" "st' \<in> set (iterate k a mid)"
    by auto
  then show ?case
  proof cases
    case 1
    then have "consumes a st st' [] []" by (simp add: consumes_def)
    then show ?thesis by blast
  next
    case 2
    have "mid \<in> set (filter (\<lambda>st'. length (fst st') < length (fst st)) (rmatch a st))"
      using 2(1,2) by simp
    from "8.IH"(2)[OF this 2(3)] obtain x2 n2 where b: "consumes a mid st' x2 n2" by blast
    from "8.IH"(1)[OF 2(1)] obtain x1 n1 where a: "consumes a st mid x1 n1" by blast
    from a b have "consumes a st st' (x1 @ x2) (n2 @ n1)"
      by (auto simp: consumes_def)
    then show ?thesis by blast
  qed
qed

text \<open>What a group captures is the text its body has read.\<close>

lemma rmatch_Group:
  assumes "st' \<in> set (rmatch (Group n a) st)"
  shows "\<exists>x mid. mid \<in> set (rmatch a st) \<and> fst st = x @ fst mid \<and>
                 st' = (fst mid, (n, x) # snd mid)"
proof -
  from assms obtain mid where mid: "mid \<in> set (rmatch a st)"
    and st': "st' = (fst mid, (n, take (length (fst st) - length (fst mid)) (fst st)) # snd mid)"
    by auto
  from rmatch_extends[OF mid] obtain x new where "consumes a st mid x new" by blast
  then have "fst st = x @ fst mid" "take (length (fst st) - length (fst mid)) (fst st) = x"
    by (auto simp: consumes_def)
  with st' mid show ?thesis
    by auto
qed

lemma rmatch_Lit:
  "st' \<in> set (rmatch (Lit t) st) \<Longrightarrow> fst st = t @ fst st' \<and> snd st' = snd st"
  by (auto simp: startswith_def split: if_splits) (metis append_take_drop_id)

lemma rmatch_Seq:
  "st' \<in> set (rmatch (Seq a b) st) \<Longrightarrow> \<exists>mid \<in> set (rmatch a st). st' \<in> set (rmatch b mid)"
  by auto

text \<open>A run of characters outside a class.\<close>

lemma iterate_NoneOf:
  "st' \<in> set (iterate k (NoneOf cs) st) \<Longrightarrow>
     \<exists>x. fst st = x @ fst st' \<and> snd st' = snd st \<and> set x \<inter> set cs = {}"
proof (induction k arbitrary: st)
  case 0
  then show ?case by simp
next
  case (Suc k)
  from Suc.prems consider "st' = st"
    | mid where "mid \<in> set (rmatch (NoneOf cs) st)" "st' \<in> set (iterate k (NoneOf cs) mid)"
    by auto
  then show ?case
  proof cases
    case 1
    then show ?thesis by simp
  next
    case 2
    from rmatch_NoneOf[OF 2(1)] obtain c where c: "fst st = c # fst mid" "snd mid = snd st" "c \<notin> set cs"
      by auto
    from Suc.IH[OF 2(2)] obtain x where "fst mid = x @ fst st'" "snd st' = snd mid" "set x \<inter> set cs = {}"
      by blast
    with c have "fst st = (c # x) @ fst st' \<and> snd st' = snd st \<and> set (c # x) \<inter> set cs = {}"
      by simp
    then show ?thesis by blast
  qed
qed

lemma rmatch_plus_NoneOf:
  assumes "st' \<in> set (rmatch (plus (NoneOf cs)) st)"
  shows "\<exists>x. x \<noteq> [] \<and> fst st = x @ fst st' \<and> snd st' = snd st \<and> set x \<inter> set cs = {}"
proof -
  from assms obtain mid where mid: "mid \<in> set (rmatch (NoneOf cs) st)"
    and st': "st' \<in> set (iterate (length (fst mid)) (NoneOf cs) mid)"
    unfolding plus_def by (auto simp del: rmatch.simps(2))
  from rmatch_NoneOf[OF mid] obtain c where c: "fst st = c # fst mid" "snd mid = snd st" "c \<notin> set cs"
    by auto
  from iterate_NoneOf[OF st'] obtain x where "fst mid = x @ fst st'" "snd st' = snd mid" "set x \<inter> set cs = {}"
    by blast
  with c have "c # x \<noteq> [] \<and> fst st = (c # x) @ fst st' \<and> snd st' = snd st \<and> set (c # x) \<inter> set cs = {}"
    by simp
  then show ?thesis by blast
qed

lemma rmatch_Alt:
  "st' \<in> set (rmatch (Alt a b) st) \<Longrightarrow> st' \<in> set (rmatch a st) \<or> st' \<in> set (rmatch b st)"
  by simp

lemma rmatch_Star:
  "st' \<in> set (rmatch (Star a) st) \<Longrightarrow> st' \<in> set (iterate (length (fst st)) a st)"
  by simp

declare rmatch.simps [simp del]

lemma AUTOLINK_RE_parts:
  "AUTOLINK_RE =
     Seq re_opening (Seq (Lit ''('')
       (Seq (Group 2 (Seq (Group 3 re_filename) (Star re_anchor))) (Lit '')'')))"
  by (simp add: AUTOLINK_RE_def re_opening_def re_filename_def re_extension_def re_anchor_def)

lemma opening_shape:
  assumes "st' \<in> set (rmatch re_opening st)"
  shows "\<exists>opener. fst st = opener @ fst st' \<and>
           (opener = ''![]'' \<or>
            (\<exists>label. label \<noteq> [] \<and> CHR '']'' \<notin> set label \<and> opener = ''['' @ label @ '']''))"
proof -
  from assms consider "st' \<in> set (rmatch (Lit ''![]'') st)"
    | "st' \<in> set (rmatch (Seq (Lit ''['') (Seq (Group 1 (plus (NoneOf '']''))) (Lit '']''))) st)"
    unfolding re_opening_def using rmatch_Alt by blast
  then show ?thesis
  proof cases
    case 1
    from rmatch_Lit[OF this] show ?thesis by blast
  next
    case 2
    from rmatch_Seq[OF 2] obtain st1 where st1: "st1 \<in> set (rmatch (Lit ''['') st)"
      and r1: "st' \<in> set (rmatch (Seq (Group 1 (plus (NoneOf '']''))) (Lit '']'')) st1)"
      by blast
    from rmatch_Seq[OF r1] obtain st2 where st2: "st2 \<in> set (rmatch (Group 1 (plus (NoneOf '']''))) st1)"
      and r2: "st' \<in> set (rmatch (Lit '']'') st2)"
      by blast
    from rmatch_Group[OF st2] obtain x mid where mid: "mid \<in> set (rmatch (plus (NoneOf '']'')) st1)"
      and x: "fst st1 = x @ fst mid" and st2': "st2 = (fst mid, (1, x) # snd mid)"
      by blast
    from rmatch_plus_NoneOf[OF mid] obtain label where label: "label \<noteq> []" "fst st1 = label @ fst mid"
      "set label \<inter> set '']'' = {}"
      by blast
    from rmatch_Lit[OF st1] rmatch_Lit[OF r2] label st2'
    have "fst st = (''['' @ label @ '']'') @ fst st'"
      by simp
    moreover from label(3) have "CHR '']'' \<notin> set label" by simp
    ultimately show ?thesis using label(1) by blast
  qed
qed

lemma extension_shape:
  assumes "st' \<in> set (rmatch re_extension st)"
  shows "\<exists>e. fst st = e @ fst st' \<and> snd st' = snd st \<and>
             e \<in> set extensions"
proof -
  from assms have "st' \<in> set (rmatch (Lit ''md'') st) \<or> st' \<in> set (rmatch (Lit ''png'') st) \<or>
      st' \<in> set (rmatch (Lit ''jpg'') st) \<or> st' \<in> set (rmatch (Lit ''jpeg'') st) \<or>
      st' \<in> set (rmatch (Lit ''bmp'') st) \<or> st' \<in> set (rmatch (Lit ''gif'') st)"
    unfolding re_extension_def by (blast dest: rmatch_Alt)
  then show ?thesis
    by (elim disjE) (auto dest!: rmatch_Lit simp: extensions_def)
qed

lemma filename_shape:
  assumes "st' \<in> set (rmatch re_filename st)"
  shows "\<exists>stem e. fst st = (stem @ ''.'' @ e) @ fst st' \<and> stem \<noteq> [] \<and>
            CHR '')'' \<notin> set stem \<and> CHR ''/'' \<notin> set stem \<and>
            e \<in> set extensions"
proof -
  from assms obtain st1 where st1: "st1 \<in> set (rmatch (plus (NoneOf '')/'')) st)"
    and r1: "st' \<in> set (rmatch (Seq (Lit ''.'') (Group 4 re_extension)) st1)"
    unfolding re_filename_def using rmatch_Seq by blast
  from rmatch_Seq[OF r1] obtain st2 where st2: "st2 \<in> set (rmatch (Lit ''.'') st1)"
    and r2: "st' \<in> set (rmatch (Group 4 re_extension) st2)"
    by blast
  from rmatch_Group[OF r2] obtain x mid where mid: "mid \<in> set (rmatch re_extension st2)"
    and st': "st' = (fst mid, (4, x) # snd mid)"
    by blast
  from extension_shape[OF mid] obtain e where e: "fst st2 = e @ fst mid"
    "e \<in> set extensions"
    by blast
  from rmatch_plus_NoneOf[OF st1] obtain stem where stem: "stem \<noteq> []" "fst st = stem @ fst st1"
    "set stem \<inter> set '')/'' = {}"
    by blast
  from stem(2) rmatch_Lit[OF st2] e(1) st' have "fst st = (stem @ ''.'' @ e) @ fst st'"
    by simp
  moreover from stem(3) have "CHR '')'' \<notin> set stem" "CHR ''/'' \<notin> set stem" by auto
  ultimately have "fst st = (stem @ ''.'' @ e) @ fst st' \<and> stem \<noteq> [] \<and>
            CHR '')'' \<notin> set stem \<and> CHR ''/'' \<notin> set stem \<and>
            e \<in> set extensions"
    using stem(1) e(2) by (intro conjI)
  then show ?thesis by (intro exI)
qed

lemma anchor_shape:
  "st' \<in> set (iterate k re_anchor st) \<Longrightarrow>
     \<exists>x new. fst st = x @ fst st' \<and> CHR '')'' \<notin> set x \<and>
             snd st' = new @ snd st \<and> fst ` set new \<subseteq> {5}"
proof (induction k arbitrary: st)
  case 0
  then show ?case by simp
next
  case (Suc k)
  from Suc.prems consider "st' = st"
    | mid where "mid \<in> set (rmatch re_anchor st)" "st' \<in> set (iterate k re_anchor mid)"
    by auto
  then show ?case
  proof cases
    case 1
    then show ?thesis by simp
  next
    case 2
    from 2(1) rmatch_Group obtain x m where m: "m \<in> set (rmatch (Seq (Lit ''#'') (Star (NoneOf '')''))) st)"
      and x: "fst st = x @ fst m" and mid: "mid = (fst m, (5, x) # snd m)"
      unfolding re_anchor_def by blast
    from rmatch_Seq[OF m] obtain m1 where m1: "m1 \<in> set (rmatch (Lit ''#'') st)"
      and m2: "m \<in> set (rmatch (Star (NoneOf '')'')) m1)"
      by blast
    from iterate_NoneOf[OF rmatch_Star[OF m2]] obtain y where y: "fst m1 = y @ fst m" "snd m = snd m1"
      "set y \<inter> set '')'' = {}"
      by blast
    from rmatch_Lit[OF m1] y x have xeq: "x = ''#'' @ y" and sm: "snd m = snd st"
      by simp_all
    from Suc.IH[OF 2(2)] obtain x2 new where x2: "fst mid = x2 @ fst st'" "CHR '')'' \<notin> set x2"
      "snd st' = new @ snd mid" "fst ` set new \<subseteq> {5}"
      by blast
    from x x2 mid xeq sm y(3)
    have "fst st = (x @ x2) @ fst st' \<and> CHR '')'' \<notin> set (x @ x2) \<and>
          snd st' = (new @ [(5, x)]) @ snd st \<and> fst ` set (new @ [(5, x)]) \<subseteq> {5}"
      by auto
    then show ?thesis by blast
  qed
qed

text \<open>
  The shape of every recognised link: an opener \<^verbatim>\<open>![]\<close> or \<^verbatim>\<open>[label]\<close> with a label
  that is not empty, then in parentheses the file name (group 3: a stem without
  \<^verbatim>\<open>)\<close> and \<^verbatim>\<open>/\<close>, a dot and an extension of the list) and an anchor without \<^verbatim>\<open>)\<close>.
\<close>

lemma autolink_shape:
  assumes "re_match AUTOLINK_RE s = Some m"
  shows "\<exists>opener stem e anchor rest.
           s = group0 m @ rest \<and>
           group0 m = opener @ ''('' @ (stem @ ''.'' @ e) @ anchor @ '')'' \<and>
           group m 3 = Some (stem @ ''.'' @ e) \<and>
           (opener = ''![]'' \<or>
            (\<exists>label. label \<noteq> [] \<and> CHR '']'' \<notin> set label \<and> opener = ''['' @ label @ '']'')) \<and>
           stem \<noteq> [] \<and> CHR '')'' \<notin> set stem \<and> CHR ''/'' \<notin> set stem \<and>
           e \<in> set extensions \<and>
           CHR '')'' \<notin> set anchor"
proof -
  from assms obtain st' where st': "st' \<in> set (rmatch AUTOLINK_RE (s, []))"
    and m: "m = \<lparr>group0 = take (length s - length (fst st')) s, groups = snd st'\<rparr>"
    by (auto simp: re_match_def split: list.splits)
  from st' rmatch_Seq obtain st1 where st1: "st1 \<in> set (rmatch re_opening (s, []))"
    and r1: "st' \<in> set (rmatch (Seq (Lit ''('')
       (Seq (Group 2 (Seq (Group 3 re_filename) (Star re_anchor))) (Lit '')''))) st1)"
    unfolding AUTOLINK_RE_parts by blast
  from rmatch_Seq[OF r1] obtain st2 where st2: "st2 \<in> set (rmatch (Lit ''('') st1)"
    and r2: "st' \<in> set (rmatch (Seq (Group 2 (Seq (Group 3 re_filename) (Star re_anchor))) (Lit '')'')) st2)"
    by blast
  from rmatch_Seq[OF r2] obtain st3
    where st3: "st3 \<in> set (rmatch (Group 2 (Seq (Group 3 re_filename) (Star re_anchor))) st2)"
    and r3: "st' \<in> set (rmatch (Lit '')'') st3)"
    by blast
  from rmatch_Group[OF st3] obtain x2 mid2
    where mid2: "mid2 \<in> set (rmatch (Seq (Group 3 re_filename) (Star re_anchor)) st2)"
    and st3': "st3 = (fst mid2, (2, x2) # snd mid2)"
    by blast
  from rmatch_Seq[OF mid2] obtain st4 where st4: "st4 \<in> set (rmatch (Group 3 re_filename) st2)"
    and r4: "mid2 \<in> set (rmatch (Star re_anchor) st4)"
    by blast
  from rmatch_Group[OF st4] obtain g3 mid3 where mid3: "mid3 \<in> set (rmatch re_filename st2)"
    and g3: "fst st2 = g3 @ fst mid3" and st4': "st4 = (fst mid3, (3, g3) # snd mid3)"
    by blast
  from filename_shape[OF mid3] obtain stem e where f: "fst st2 = (stem @ ''.'' @ e) @ fst mid3"
    "stem \<noteq> []" "CHR '')'' \<notin> set stem" "CHR ''/'' \<notin> set stem"
    "e \<in> set extensions"
    by blast
  from f(1) g3 have g3eq: "g3 = stem @ ''.'' @ e" by simp
  from anchor_shape[OF rmatch_Star[OF r4]] obtain anchor new
    where a: "fst st4 = anchor @ fst mid2" "CHR '')'' \<notin> set anchor"
      "snd mid2 = new @ snd st4" "fst ` set new \<subseteq> {5}"
    by blast
  from opening_shape[OF st1] obtain opener where o: "s = opener @ fst st1"
    "opener = ''![]'' \<or>
       (\<exists>label. label \<noteq> [] \<and> CHR '']'' \<notin> set label \<and> opener = ''['' @ label @ '']'')"
    by auto
  have s: "s = (opener @ ''('' @ g3 @ anchor @ '')'') @ fst st'"
    using o(1) rmatch_Lit[OF st2] g3 st4' a(1) st3' rmatch_Lit[OF r3] by simp
  have g0: "group0 m = opener @ ''('' @ g3 @ anchor @ '')''"
    unfolding m by (subst (1 2) s) simp
  have "map_of new (3::nat) = None"
    using a(4) by (auto simp: map_of_eq_None_iff)
  then have "map_of (snd st') 3 = Some g3"
    using rmatch_Lit[OF r3] st3' a(3) st4' by (simp add: map_add_def)
  then have grp: "group m 3 = Some g3"
    using m by (simp add: group_def)
  have "s = group0 m @ fst st' \<and>
        group0 m = opener @ ''('' @ (stem @ ''.'' @ e) @ anchor @ '')'' \<and>
        group m 3 = Some (stem @ ''.'' @ e) \<and>
        (opener = ''![]'' \<or>
         (\<exists>label. label \<noteq> [] \<and> CHR '']'' \<notin> set label \<and> opener = ''['' @ label @ '']'')) \<and>
        stem \<noteq> [] \<and> CHR '')'' \<notin> set stem \<and> CHR ''/'' \<notin> set stem \<and>
        e \<in> set extensions \<and>
        CHR '')'' \<notin> set anchor"
    using s g0 grp o(2) f(2-5) a(2) unfolding g3eq by (intro conjI) simp_all
  then show ?thesis by (intro exI)
qed

section \<open>The scan of \<^verbatim>\<open>re.sub\<close>\<close>

lemma occurrences_counter_add:
  "occurrences (counter_add missing f p) f' p' =
     (if f' = f \<and> p' = p then occurrences missing f p + 1 else occurrences missing f' p')"
  by (auto simp: occurrences_def counter_add_def lookup_default_def update_conv' Let_def)

declare re_sub.simps [simp del]

lemma re_sub_skip:
  "re_match re (c # cs) = None \<Longrightarrow>
     re_sub re repl (c # cs) st =
       (case re_sub re repl cs st of
          (st', Inl e) \<Rightarrow> (st', Inl e)
        | (st', Inr out) \<Rightarrow> (st', Inr (c # out)))"
  by (subst re_sub.simps) simp

lemma re_sub_end:
  "re_match re [] = None \<Longrightarrow> re_sub re repl [] st = (st, Inr [])"
  by (subst re_sub.simps) simp

lemma re_sub_match:
  "re_match re s = Some m \<Longrightarrow> group0 m \<noteq> [] \<Longrightarrow> repl m st = (st1, Inr new) \<Longrightarrow>
     re_sub re repl s st =
       (case re_sub re repl (drop (length (group0 m)) s) st1 of
          (st', Inl e) \<Rightarrow> (st', Inl e)
        | (st', Inr out) \<Rightarrow> (st', Inr (new @ out)))"
  by (subst re_sub.simps) simp

lemma autolink_nonempty: "re_match AUTOLINK_RE s = Some m \<Longrightarrow> group0 m \<noteq> []"
  using autolink_shape by fastforce

lemma autolink_first_chars:
  assumes "re_match AUTOLINK_RE s = Some m"
  shows "(\<exists>t. s = ''![]('' @ t) \<or> (\<exists>c t. s = CHR ''['' # c # t \<and> c \<noteq> CHR '']'')"
proof -
  from autolink_shape[OF assms] obtain opener stem e anchor rest where
    s: "s = group0 m @ rest" and
    g: "group0 m = opener @ ''('' @ (stem @ ''.'' @ e) @ anchor @ '')''" and
    opn: "opener = ''![]'' \<or>
       (\<exists>label. label \<noteq> [] \<and> CHR '']'' \<notin> set label \<and> opener = ''['' @ label @ '']'')"
    by blast
  from opn show ?thesis
  proof
    assume "opener = ''![]''"
    with s g show ?thesis by simp
  next
    assume "\<exists>label. label \<noteq> [] \<and> CHR '']'' \<notin> set label \<and> opener = ''['' @ label @ '']''"
    then obtain label where l: "label \<noteq> []" "CHR '']'' \<notin> set label" "opener = ''['' @ label @ '']''"
      by blast
    then obtain c l' where "label = c # l'" "c \<noteq> CHR '']''"
      by (cases label) auto
    with s g l(3) show ?thesis by simp
  qed
qed

lemma empty_label_no_match: "re_match AUTOLINK_RE (CHR ''['' # CHR '']'' # rest) = None"
proof (cases "re_match AUTOLINK_RE (CHR ''['' # CHR '']'' # rest)")
  case None
  then show ?thesis .
next
  case (Some m)
  from autolink_first_chars[OF this] show ?thesis by simp
qed

lemma no_bracket_no_match:
  assumes "CHR ''['' \<notin> set s"
  shows "re_match AUTOLINK_RE s = None"
proof (cases "re_match AUTOLINK_RE s")
  case None
  then show ?thesis .
next
  case (Some m)
  from autolink_first_chars[OF this] assms show ?thesis by auto
qed

lemma re_sub_no_bracket:
  "CHR ''['' \<notin> set s \<Longrightarrow> re_sub AUTOLINK_RE repl s st = (st, Inr s)"
proof (induction s)
  case Nil
  then show ?case by (simp add: re_sub_end no_bracket_no_match)
next
  case (Cons c s)
  then have "re_match AUTOLINK_RE (c # s) = None"
    using no_bracket_no_match by blast
  with Cons show ?case by (simp add: re_sub_skip)
qed

text \<open>
  C10, as the claim states it, fails: in the text \<^verbatim>\<open>[x[](notes.md)\<close> the label of the
  recognised link runs from the first bracket to the \<^verbatim>\<open>]\<close> of \<^verbatim>\<open>[]\<close>, so the text
  \<^verbatim>\<open>[](notes.md)\<close>, which has no \<^verbatim>\<open>!\<close> before it, is rewritten.
\<close>

theorem empty_label_unchanged_counterexample:
  "snd (on_page_markdown ''/home'' after_build1 ''[x[](notes.md)'' (hd build1_files)
          ''/docs'' build1_files) = Inr ''[x[](a/notes.md)''"
  by code_simp

text \<open>
  C10, amended. No link is recognised at a \<^verbatim>\<open>[\<close> that is directly followed by
  \<^verbatim>\<open>]\<close>: when the scan of \<^verbatim>\<open>re.sub\<close> stands before \<^verbatim>\<open>[]\<close> it copies these two
  characters and goes on behind them, whatever follows. A text that is \<^verbatim>\<open>[](target)\<close>
  and nothing else, with no \<^verbatim>\<open>[\<close> in the target, is returned unchanged and the
  replacement function is not called.
\<close>

theorem empty_label_not_recognised:
  "re_match AUTOLINK_RE (''[]'' @ rest) = None \<and>
   re_sub AUTOLINK_RE repl (''[]'' @ rest) st =
     (case re_sub AUTOLINK_RE repl rest st of
        (st', Inl e) \<Rightarrow> (st', Inl e)
      | (st', Inr out) \<Rightarrow> (st', Inr (''[]'' @ out))) \<and>
   (CHR ''['' \<notin> set target \<longrightarrow>
      re_sub AUTOLINK_RE repl (''[]('' @ target @ '')'') st = (st, Inr (''[]('' @ target @ '')'')))"
proof -
  have 1: "re_match AUTOLINK_RE (CHR ''['' # CHR '']'' # rest) = None" for rest
    by (rule empty_label_no_match)
  have 2: "re_match AUTOLINK_RE (CHR '']'' # rest) = None" for rest
  proof (cases "re_match AUTOLINK_RE (CHR '']'' # rest)")
    case (Some m)
    from autolink_first_chars[OF this] show ?thesis by simp
  qed simp
  have 3: "re_sub AUTOLINK_RE repl (''[]'' @ rest) st =
     (case re_sub AUTOLINK_RE repl rest st of
        (st', Inl e) \<Rightarrow> (st', Inl e)
      | (st', Inr out) \<Rightarrow> (st', Inr (''[]'' @ out)))" for rest
    by (simp add: re_sub_skip 1 2 split: prod.splits sum.splits)
  have 4: "re_sub AUTOLINK_RE repl (''[]('' @ target @ '')'') st = (st, Inr (''[]('' @ target @ '')''))"
    if "CHR ''['' \<notin> set target"
  proof -
    from that have "CHR ''['' \<notin> set (''('' @ target @ '')'')" by simp
    from re_sub_no_bracket[OF this] have "re_sub AUTOLINK_RE repl (''('' @ target @ '')'') st =
        (st, Inr (''('' @ target @ '')''))" .
    with 3[of "''('' @ target @ '')''"] show ?thesis by simp
  qed
  from 1 3 4 show ?thesis by simp
qed

theorem empty_label_not_recognised_witness:
  "re_sub AUTOLINK_RE (AutoLinkReplacer ''/home'' ''/docs'' ''/docs/index.md'' [])
     (''[]('' @ ''diagram.png'' @ '')'') [] = ([], Inr ''[](diagram.png)'') \<and>
   re_sub AUTOLINK_RE (AutoLinkReplacer ''/home'' ''/docs'' ''/docs/index.md'' [])
     ''![](diagram.png)'' [] = ([(''diagram.png'', [(''index.md'', 1)])], Inr ''![](diagram.png)'')"
proof -
  have "CHR ''['' \<notin> set ''diagram.png''" by simp
  with empty_label_not_recognised[of "[]"
      "AutoLinkReplacer ''/home'' ''/docs'' ''/docs/index.md'' []" "[]" "''diagram.png''"]
  have "re_sub AUTOLINK_RE (AutoLinkReplacer ''/home'' ''/docs'' ''/docs/index.md'' [])
     (''[]('' @ ''diagram.png'' @ '')'') [] = ([], Inr (''[]('' @ ''diagram.png'' @ '')''))"
    by blast
  moreover have "re_sub AUTOLINK_RE (AutoLinkReplacer ''/home'' ''/docs'' ''/docs/index.md'' [])
     ''![](diagram.png)'' [] = ([(''diagram.png'', [(''index.md'', 1)])], Inr ''![](diagram.png)'')"
    by code_simp
  ultimately show ?thesis by simp
qed

end
